theory Spec2Isabelle
  imports Main "HOL-Library.AList" "HOL-Library.Char_ord" "HOL-Library.List_Lexorder"
begin

section \<open>Media extractors: random access, caching, readers and chunk writers\<close>

text \<open>
  A shallow embedding of \<^verbatim>\<open>cvat/apps/engine/media_extractors.py\<close>.
  Python exceptions are values of \<open>error\<close>; a method that mutates \<open>self\<close> takes the
  object and returns it updated, also when it raises (Python keeps the mutations made
  before the exception).
\<close>

datatype error =
    AssertionError
  | StopIteration
  | ValueError
  | TypeError
  | NoImageFound
  | NoImagesToSave
  | ValidationError
  | FileExistsError
  | FileNotFoundError
  | StructError
  | IndexError
  | OverflowError

subsection \<open>RandomAccessIterator\<close>

text \<open>
  The wrapped iterable is a finite restartable sequence: \<open>iter(self.iterable)\<close> yields the
  list \<open>iterable\<close> from its first element, every time. A live iterator is the list of
  values it has not yielded yet.
\<close>

record 'a random_access_iterator =
  iterable :: "'a list"
  iterator :: "'a list option"
  pos :: int

definition RandomAccessIterator :: "'a list \<Rightarrow> 'a random_access_iterator" where
  "RandomAccessIterator xs = \<lparr>iterable = xs, iterator = None, pos = - 1\<rparr>"

definition close ::
  "('a, 'z) random_access_iterator_scheme \<Rightarrow> ('a, 'z) random_access_iterator_scheme" where
  "close s = s\<lparr>iterator := None, pos := - 1\<rparr>"

definition reset ::
  "('a, 'z) random_access_iterator_scheme \<Rightarrow> ('a, 'z) random_access_iterator_scheme" where
  "reset s = (close s)\<lparr>iterator := Some (iterable s)\<rparr>"

text \<open>
  The loop \<^verbatim>\<open>while self.pos < idx: v = next(self.iterator); self.pos += 1\<close>, on the
  values left in the iterator. It returns the outcome, the values left and the cursor;
  \<open>next\<close> on an exhausted iterator raises \<open>StopIteration\<close> and leaves the cursor where
  it was.
\<close>

fun advance ::
  "'a list \<Rightarrow> int \<Rightarrow> int \<Rightarrow> 'a option \<Rightarrow> (error + 'a option) \<times> 'a list \<times> int" where
  "advance [] p idx v =
     (if p < idx then (Inl StopIteration, [], p) else (Inr v, [], p))"
| "advance (x # rest) p idx v =
     (if p < idx then advance rest (p + 1) idx (Some x) else (Inr v, x # rest, p))"

definition getitem ::
  "('a, 'z) random_access_iterator_scheme \<Rightarrow> int \<Rightarrow>
   (error + 'a option) \<times> ('a, 'z) random_access_iterator_scheme" where
  "getitem s idx =
     (if \<not> 0 \<le> idx then (Inl AssertionError, s)
      else
        let s1 = (if iterator s = None \<or> idx \<le> pos s then reset s else s) in
        case iterator s1 of
          None \<Rightarrow> (Inl TypeError, s1)
        | Some it \<Rightarrow>
            (case advance it (pos s1) idx None of
               (r, it', p') \<Rightarrow> (r, s1\<lparr>iterator := Some it', pos := p'\<rparr>)))"

text \<open>A sequence of accesses, each result discarded, as Python leaves the object.\<close>

fun accesses ::
  "('a, 'z) random_access_iterator_scheme \<Rightarrow> int list \<Rightarrow>
   ('a, 'z) random_access_iterator_scheme" where
  "accesses s [] = s"
| "accesses s (i # is) = accesses (snd (getitem s i)) is"

subsection \<open>CachingMediaIterator\<close>

record 'a cache_item =
  item_value :: 'a
  item_size :: int

text \<open>
  \<open>cache\<close> is the dictionary \<^verbatim>\<open>self._cache\<close> as an association list with one pair per
  key; \<open>object_size_callback\<close> is the optional constructor argument.
\<close>

record 'a caching_media_iterator = "'a random_access_iterator" +
  max_cache_entries :: int
  max_cache_memory :: int
  object_size_callback :: "('a \<Rightarrow> int) option"
  used_cache_memory :: int
  cache :: "(int \<times> 'a cache_item) list"

definition CachingMediaIterator ::
  "'a list \<Rightarrow> int \<Rightarrow> int \<Rightarrow> ('a \<Rightarrow> int) option \<Rightarrow> 'a caching_media_iterator" where
  "CachingMediaIterator xs max_memory max_entries callback =
     \<lparr>iterable = xs, iterator = None, pos = - 1,
      max_cache_entries = max_entries, max_cache_memory = max_memory,
      object_size_callback = callback, used_cache_memory = 0, cache = []\<rparr>"

text \<open>\<open>get_size\<close> is the method of the \<^verbatim>\<open>Sized\<close> protocol of the cached objects.\<close>

definition get_object_size ::
  "('a \<Rightarrow> int) \<Rightarrow> 'a caching_media_iterator \<Rightarrow> 'a \<Rightarrow> int" where
  "get_object_size get_size s obj =
     (case object_size_callback s of Some f \<Rightarrow> f obj | None \<Rightarrow> get_size obj)"

text \<open>
  The eviction loop of \<^verbatim>\<open>__getitem__\<close>. \<^verbatim>\<open>min\<close> of the keys of an empty dictionary
  raises \<open>ValueError\<close>; the loop writes \<^verbatim>\<open>self._cache\<close> only.
\<close>

function evict ::
  "'a caching_media_iterator \<Rightarrow> int \<Rightarrow> error option \<times> 'a caching_media_iterator" where
  "evict s value_size =
     (if int (length (cache s)) + 1 > max_cache_entries s
         \<or> used_cache_memory s + value_size > max_cache_memory s
      then
        (if cache s = [] then (Some ValueError, s)
         else
           let min_key = Min (set (map fst (cache s))) in
           evict (s\<lparr>cache := AList.delete min_key (cache s)\<rparr>) value_size)
      else (None, s))"
  by pat_completeness auto
termination
proof (relation "measure (\<lambda>(s, v). length (cache s))")
  show "wf (measure (\<lambda>(s :: 'a caching_media_iterator, v :: int). length (cache s)))"
    by simp
next
  fix s :: "'a caching_media_iterator" and value_size :: int and x :: int
  assume ne: "cache s \<noteq> []" and x: "x = Min (set (map fst (cache s)))"
  have "x \<in> set (map fst (cache s))"
    unfolding x using ne by (intro Min_in) auto
  then obtain v where "(x, v) \<in> set (cache s)" by auto
  then have "length (filter (\<lambda>(k', _). x \<noteq> k') (cache s)) < length (cache s)"
    by (rule length_filter_less) simp
  then have "length (AList.delete x (cache s)) < length (cache s)"
    by (simp add: AList.delete_eq)
  then show "((s\<lparr>cache := AList.delete x (cache s)\<rparr>, value_size), s, value_size)
      \<in> measure (\<lambda>(s, v). length (cache s))"
    by simp
qed

declare evict.simps [simp del]

text \<open>
  \<^verbatim>\<open>CachingMediaIterator.__getitem__\<close>. A stored \<^verbatim>\<open>_CacheItem\<close> is always truthy, so
  \<^verbatim>\<open>if cache_item\<close> tests presence. The base class never returns \<^verbatim>\<open>None\<close> (lemma
  \<open>getitem_spec\<close> below); the branch is kept as an error.
\<close>

definition caching_getitem ::
  "('a \<Rightarrow> int) \<Rightarrow> 'a caching_media_iterator \<Rightarrow> int \<Rightarrow>
   (error + 'a) \<times> 'a caching_media_iterator" where
  "caching_getitem get_size s idx =
     (case map_of (cache s) idx of
        Some cached \<Rightarrow> (Inr (item_value cached), s)
      | None \<Rightarrow>
          (case getitem s idx of
             (Inl e, s1) \<Rightarrow> (Inl e, s1)
           | (Inr None, s1) \<Rightarrow> (Inl TypeError, s1)
           | (Inr (Some v), s1) \<Rightarrow>
               let value_size = get_object_size get_size s1 v in
               (case evict s1 value_size of
                  (Some e, s2) \<Rightarrow> (Inl e, s2)
                | (None, s2) \<Rightarrow>
                    (if used_cache_memory s2 + value_size \<le> max_cache_memory s2
                     then (Inr v, s2\<lparr>cache := AList.update idx
                              \<lparr>item_value = v, item_size = value_size\<rparr> (cache s2)\<rparr>)
                     else (Inr v, s2)))))"

fun caching_accesses ::
  "('a \<Rightarrow> int) \<Rightarrow> 'a caching_media_iterator \<Rightarrow> int list \<Rightarrow> 'a caching_media_iterator" where
  "caching_accesses get_size s [] = s"
| "caching_accesses get_size s (i # is) =
     caching_accesses get_size (snd (caching_getitem get_size s i)) is"

text \<open>The bytes really held by the cache: the sum of the sizes of its entries.\<close>

definition cached_bytes :: "'a caching_media_iterator \<Rightarrow> int" where
  "cached_bytes s = sum_list (map (\<lambda>(k, item). item_size item) (cache s))"

text \<open>
  What a live iterator holds between two accesses: the values after the cursor. \<open>lookup\<close>
  is the outcome of an access at index \<open>i\<close> read off the source sequence.
\<close>

definition iter_inv :: "('a, 'z) random_access_iterator_scheme \<Rightarrow> bool" where
  "iter_inv s \<longleftrightarrow>
     (case iterator s of
        None \<Rightarrow> pos s = - 1
      | Some it \<Rightarrow> - 1 \<le> pos s \<and> pos s < int (length (iterable s))
                   \<and> it = drop (nat (pos s + 1)) (iterable s))"

definition lookup :: "'a list \<Rightarrow> int \<Rightarrow> error + 'a option" where
  "lookup xs i =
     (if i < 0 then Inl AssertionError
      else if i < int (length xs) then Inr (Some (xs ! nat i))
      else Inl StopIteration)"

text \<open>
  The invariant of the cache between two accesses, as the code maintains it: the byte
  counter is never written after construction, the keys are distinct, and a non-empty
  cache respects the entry limit under a non-negative byte budget.
\<close>

definition cache_inv :: "'a caching_media_iterator \<Rightarrow> bool" where
  "cache_inv s \<longleftrightarrow>
     used_cache_memory s = 0 \<and> distinct (map fst (cache s))
     \<and> (cache s = [] \<or> (int (length (cache s)) \<le> max_cache_entries s \<and> 0 \<le> max_cache_memory s))"

subsection \<open>Sorting and the image readers\<close>

datatype SortingMethod = LEXICOGRAPHICAL | NATURAL | PREDEFINED | RANDOM

datatype DimensionType = DIM_2D | DIM_3D

text \<open>
  \<^verbatim>\<open>sort(images, sorting_method)\<close>. The natural order (\<^verbatim>\<open>natsort.os_sorted\<close>) and the
  shuffle (\<^verbatim>\<open>random.shuffle\<close>) are library functions, taken as parameters.
\<close>

definition sort_images ::
  "(string list \<Rightarrow> string list) \<Rightarrow> (string list \<Rightarrow> string list) \<Rightarrow>
   SortingMethod \<Rightarrow> string list \<Rightarrow> string list" where
  "sort_images os_sorted shuffle sorting_method images =
     (case sorting_method of
        LEXICOGRAPHICAL \<Rightarrow> sort images
      | NATURAL \<Rightarrow> os_sorted images
      | PREDEFINED \<Rightarrow> images
      | RANDOM \<Rightarrow> shuffle images)"

text \<open>
  Python's \<^verbatim>\<open>range(lo, hi, st)\<close> raises \<open>ValueError\<close> for a zero step; the number of
  its elements is computed as CPython does. \<^verbatim>\<open>len\<close> of a range with more than
  \<^verbatim>\<open>sys.maxsize\<close> elements raises \<open>OverflowError\<close>; \<^verbatim>\<open>sys.maxsize\<close> is that of a 64-bit
  build.
\<close>

definition range_len :: "int \<Rightarrow> int \<Rightarrow> int \<Rightarrow> int" where
  "range_len lo hi st =
     (if 0 < st \<and> lo < hi then 1 + (hi - 1 - lo) div st
      else if st < 0 \<and> hi < lo then 1 + (lo - 1 - hi) div (- st)
      else 0)"

definition sys_maxsize :: int where
  "sys_maxsize = 2 ^ 63 - 1"

definition len_range :: "int \<Rightarrow> int \<Rightarrow> int \<Rightarrow> error + int" where
  "len_range lo hi st =
     (if st = 0 then Inl ValueError
      else if sys_maxsize < range_len lo hi st then Inl OverflowError
      else Inr (range_len lo hi st))"

text \<open>
  \<^verbatim>\<open>IMediaReader\<close> keeps the source, the step, the first and the last included index
  (\<^verbatim>\<open>Optional[int]\<close>) and the dimension.
\<close>

record 'src media_reader =
  source_path :: 'src
  step :: int
  start :: int
  stop :: "int option"
  dimension :: DimensionType

record image_list_reader = "string list media_reader" +
  sorting_method :: SortingMethod

text \<open>
  \<^verbatim>\<open>ImageListReader.__init__\<close>. \<^verbatim>\<open>if not stop\<close> holds for \<^verbatim>\<open>None\<close> and for \<open>0\<close>.
\<close>

definition ImageListReader ::
  "(string list \<Rightarrow> string list) \<Rightarrow> (string list \<Rightarrow> string list) \<Rightarrow>
   string list \<Rightarrow> int \<Rightarrow> int \<Rightarrow> int option \<Rightarrow> DimensionType \<Rightarrow> SortingMethod \<Rightarrow>
   error + image_list_reader" where
  "ImageListReader os_sorted shuffle src stp strt stp_last dim sorting =
     (if src = [] then Inl NoImageFound
      else
        let stop1 = (case stp_last of
                       None \<Rightarrow> int (length src) - 1
                     | Some st \<Rightarrow> if st = 0 then int (length src) - 1
                                  else min (int (length src) - 1) st);
            step1 = max stp 1
        in if \<not> strt \<le> stop1 then Inl AssertionError
           else Inr \<lparr>source_path = sort_images os_sorted shuffle sorting src,
                     step = step1, start = strt, stop = Some stop1, dimension = dim,
                     sorting_method = sorting\<rparr>)"

text \<open>
  \<^verbatim>\<open>frame_range\<close> and \<^verbatim>\<open>__len__\<close>: \<^verbatim>\<open>range(self._start, self._stop + 1, self._step)\<close>;
  \<^verbatim>\<open>None + 1\<close> raises \<open>TypeError\<close>.
\<close>

definition reader_len :: "('src, 'z) media_reader_scheme \<Rightarrow> error + int" where
  "reader_len r =
     (case stop r of
        None \<Rightarrow> Inl TypeError
      | Some st \<Rightarrow> len_range (start r) (st + 1) (step r))"

text \<open>Sequencing of two steps that may raise.\<close>

definition and_then :: "error + 'a \<Rightarrow> ('a \<Rightarrow> error + 'b) \<Rightarrow> error + 'b" where
  "and_then r f = (case r of Inl e \<Rightarrow> Inl e | Inr x \<Rightarrow> f x)"

text \<open>
  The length the specification gives a reader over \<open>n\<close> source entries:
  \<open>len(range(start, stop + 1, step))\<close>, the last index defaulting to \<open>n - 1\<close> when not
  supplied and clamped to it when larger.
\<close>

definition spec_reader_len :: "nat \<Rightarrow> int \<Rightarrow> int option \<Rightarrow> int \<Rightarrow> error + int" where
  "spec_reader_len n strt stp_last stp =
     len_range strt
       ((case stp_last of None \<Rightarrow> int n - 1 | Some st \<Rightarrow> min (int n - 1) st) + 1) stp"

subsection \<open>Keyframe lookup of VideoReaderWithManifest\<close>

record manifest_entry =
  number :: int
  pts :: int

text \<open>
  \<^verbatim>\<open>bisect.bisect(a, x, key=key)\<close> of the standard library (\<^verbatim>\<open>bisect_right\<close>), the
  binary search between \<open>lo\<close> and \<open>hi\<close>.
\<close>

function bisect_right :: "'a list \<Rightarrow> int \<Rightarrow> ('a \<Rightarrow> int) \<Rightarrow> nat \<Rightarrow> nat \<Rightarrow> nat" where
  "bisect_right a x key lo hi =
     (if lo < hi then
        let mid = (lo + hi) div 2 in
        if x < key (a ! mid) then bisect_right a x key lo mid
        else bisect_right a x key (mid + 1) hi
      else lo)"
  by pat_completeness auto
termination
  by (relation "measure (\<lambda>(a, x, key, lo, hi). hi - lo)") auto

declare bisect_right.simps [simp del]

definition bisect :: "'a list \<Rightarrow> int \<Rightarrow> ('a \<Rightarrow> int) \<Rightarrow> nat" where
  "bisect a x key = bisect_right a x key 0 (length a)"

definition get_nearest_left_key_frame :: "manifest_entry list \<Rightarrow> int \<Rightarrow> int \<times> int" where
  "get_nearest_left_key_frame manifest frame_id =
     (let nearest_left_keyframe_pos = bisect manifest frame_id number in
      if nearest_left_keyframe_pos \<noteq> 0
      then (number (manifest ! (nearest_left_keyframe_pos - 1)),
            pts (manifest ! (nearest_left_keyframe_pos - 1)))
      else (0, 0))"

subsection \<open>Decimal text\<close>

text \<open>\<^verbatim>\<open>str(n)\<close> of an integer and the format \<^verbatim>\<open>{:06d}\<close> of a non-negative one.\<close>

definition digit_char :: "nat \<Rightarrow> char" where
  "digit_char d = ''0123456789'' ! d"

function str_nat :: "nat \<Rightarrow> string" where
  "str_nat n = (if n < 10 then [digit_char n] else str_nat (n div 10) @ [digit_char (n mod 10)])"
  by pat_completeness auto
termination
  by (relation "measure id") auto

declare str_nat.simps [simp del]

definition str_int :: "int \<Rightarrow> string" where
  "str_int i = (if i < 0 then CHR ''-'' # str_nat (nat (- i)) else str_nat (nat i))"

definition format_06d :: "nat \<Rightarrow> string" where
  "format_06d n = replicate (6 - length (str_nat n)) CHR ''0'' @ str_nat n"

subsection \<open>Video chunk writers\<close>

record 'px video_frame =
  frame_width :: int
  frame_height :: int
  frame_pts :: "int option"
  frame_time_base :: "int option"
  frame_pixels :: 'px

record chunk_writer =
  image_quality :: int
  writer_dimension :: DimensionType

record mpeg4_chunk_writer = chunk_writer +
  output_fps :: int
  codec_name :: string
  codec_opts :: "(string \<times> string) list"

definition MAX_MBS_PER_FRAME :: int where
  "MAX_MBS_PER_FRAME = 36864"

definition FORMAT :: string where
  "FORMAT = ''mp4''"

text \<open>
  \<^verbatim>\<open>Mpeg4ChunkWriter.__init__\<close>. The translation of the quality,
  \<^verbatim>\<open>round(51 * (100 - quality) / 99)\<close>, divides and rounds in floating point: it is the
  parameter \<open>translate_quality\<close>. Which encoders the codec library has is a parameter
  too: \<^verbatim>\<open>av.codec.Codec(name, 'w')\<close> raises \<^verbatim>\<open>UnknownCodecError\<close> for a missing one,
  and the second lookup is not guarded.
\<close>

datatype codec_error = UnknownCodecError

definition Mpeg4ChunkWriter ::
  "(int \<Rightarrow> int) \<Rightarrow> bool \<Rightarrow> bool \<Rightarrow> int \<Rightarrow> codec_error + mpeg4_chunk_writer" where
  "Mpeg4ChunkWriter translate_quality has_openh264 has_x264 quality =
     (let q = translate_quality quality in
      if has_openh264 then
        Inr \<lparr>image_quality = q, writer_dimension = DIM_2D, output_fps = 25,
             codec_name = ''libopenh264'',
             codec_opts = [(''profile'', ''constrained_baseline''), (''qmin'', str_int q),
                           (''qmax'', str_int q), (''rc_mode'', ''buffer'')]\<rparr>
      else if has_x264 then
        Inr \<lparr>image_quality = q, writer_dimension = DIM_2D, output_fps = 25,
             codec_name = ''libx264'',
             codec_opts = [(''crf'', str_int q), (''preset'', ''ultrafast'')]\<rparr>
      else Inl UnknownCodecError)"

definition Mpeg4CompressedChunkWriter ::
  "(int \<Rightarrow> int) \<Rightarrow> bool \<Rightarrow> bool \<Rightarrow> int \<Rightarrow> codec_error + mpeg4_chunk_writer" where
  "Mpeg4CompressedChunkWriter translate_quality has_openh264 has_x264 quality =
     (case Mpeg4ChunkWriter translate_quality has_openh264 has_x264 quality of
        Inl e \<Rightarrow> Inl e
      | Inr w \<Rightarrow>
          if codec_name w = ''libx264''
          then Inr (w\<lparr>codec_opts := [(''profile'', ''baseline''), (''coder'', ''0''),
                         (''crf'', str_int (image_quality w)), (''wpredp'', ''0''),
                         (''flags'', ''-loop'')]\<rparr>)
          else Inr w)"

text \<open>
  The output container of the codec library, as the writer drives it: the streams added,
  the packets muxed, and whether it was closed. The library opens the file at the path
  when encoding starts, on the first muxed packet, and closing a container that never
  started writes nothing; \<open>output_file\<close> is the content the container leaves at its path.
\<close>

record video_stream =
  stream_codec :: string
  stream_rate :: int
  pix_fmt :: string
  stream_width :: int
  stream_height :: int
  stream_options :: "(string \<times> string) list"

record 'p output_container =
  container_path :: string
  container_format :: string
  streams :: "video_stream list"
  started :: bool
  muxed :: "'p list"
  closed :: bool

definition av_open :: "string \<Rightarrow> string \<Rightarrow> 'p output_container" where
  "av_open path fmt =
     \<lparr>container_path = path, container_format = fmt, streams = [], started = False,
      muxed = [], closed = False\<rparr>"

definition mux :: "'p output_container \<Rightarrow> 'p \<Rightarrow> 'p output_container" where
  "mux c packet = c\<lparr>started := True, muxed := muxed c @ [packet]\<rparr>"

definition container_close :: "'p output_container \<Rightarrow> 'p output_container" where
  "container_close c = c\<lparr>closed := True\<rparr>"

definition output_file :: "'p output_container \<Rightarrow> 'p list option" where
  "output_file c = (if started c then Some (muxed c) else None)"

text \<open>\<^verbatim>\<open>Mpeg4ChunkWriter._add_video_stream\<close>.\<close>

definition add_video_stream ::
  "mpeg4_chunk_writer \<Rightarrow> 'p output_container \<Rightarrow> int \<Rightarrow> int \<Rightarrow> int \<Rightarrow>
   (string \<times> string) list \<Rightarrow> error + 'p output_container" where
  "add_video_stream self container w h rate options =
     (let h1 = (if h mod 2 \<noteq> 0 then h + 1 else h);
          w1 = (if w mod 2 \<noteq> 0 then w + 1 else w)
      in if h1 * w1 > push_bit 8 MAX_MBS_PER_FRAME then Inl ValidationError
         else Inr (container\<lparr>streams := streams container @
                [\<lparr>stream_codec = codec_name self, stream_rate = rate, pix_fmt = ''yuv420p'',
                  stream_width = w1, stream_height = h1, stream_options = options\<rparr>]\<rparr>))"

text \<open>
  \<^verbatim>\<open>_peek_first_frame\<close>: the first descriptor, or \<^verbatim>\<open>None\<close>, and the whole sequence
  again. (On an empty input Python chains the \<^verbatim>\<open>None\<close> in front; the caller raises
  before it reads the chain.)
\<close>

definition peek_first_frame :: "'a list \<Rightarrow> 'a option \<times> 'a list" where
  "peek_first_frame frame_iter =
     (case frame_iter of [] \<Rightarrow> (None, []) | first_frame # rest \<Rightarrow> (Some first_frame, first_frame # rest))"

text \<open>
  \<^verbatim>\<open>_encode_images\<close>. The encoder of the stream is a parameter: \<open>encode\<close> takes the
  encoder state and a frame, or \<^verbatim>\<open>None\<close> to flush, and gives the packets and the next
  state. The frame is passed with its \<^verbatim>\<open>pts\<close> and \<^verbatim>\<open>time_base\<close> cleared.
\<close>

fun encode_images ::
  "('enc \<Rightarrow> 'px video_frame option \<Rightarrow> 'p list \<times> 'enc) \<Rightarrow> 'enc \<Rightarrow>
   ('px video_frame \<times> 'b \<times> 'c) list \<Rightarrow> 'p output_container \<Rightarrow> 'p output_container" where
  "encode_images encode enc [] container =
     foldl mux container (fst (encode enc None))"
| "encode_images encode enc ((frame, _, _) # images) container =
     (case encode enc (Some (frame\<lparr>frame_pts := None, frame_time_base := None\<rparr>)) of
        (packets, enc') \<Rightarrow> encode_images encode enc' images (foldl mux container packets))"

text \<open>
  \<^verbatim>\<open>Mpeg4ChunkWriter.save_as_chunk\<close>: the outcome and the output container as the call
  leaves it, \<open>None\<close> when none was opened. The \<^verbatim>\<open>with\<close> block closes the container on
  every exit.
\<close>

definition mpeg4_save_as_chunk ::
  "('enc \<Rightarrow> 'px video_frame option \<Rightarrow> 'p list \<times> 'enc) \<Rightarrow> 'enc \<Rightarrow> mpeg4_chunk_writer \<Rightarrow>
   ('px video_frame \<times> 'b \<times> 'c) list \<Rightarrow> string \<Rightarrow>
   (error + (int \<times> int) list) \<times> 'p output_container option" where
  "mpeg4_save_as_chunk encode enc self images chunk_path =
     (case peek_first_frame images of
        (None, _) \<Rightarrow> (Inl NoImagesToSave, None)
      | (Some first_frame, images') \<Rightarrow>
          let input_w = frame_width (fst first_frame);
              input_h = frame_height (fst first_frame);
              output_container = av_open chunk_path FORMAT
          in (case add_video_stream self output_container input_w input_h
                     (output_fps self) (codec_opts self) of
                Inl e \<Rightarrow> (Inl e, Some (container_close output_container))
              | Inr c1 \<Rightarrow>
                  (Inr [(input_w, input_h)],
                   Some (container_close (encode_images encode enc images' c1)))))"

text \<open>
  The loop \<^verbatim>\<open>while input_h / downscale_factor >= 1080: downscale_factor *= 2\<close> of the
  compressed writer, entered with factor 1; the factor stays positive.
\<close>

function downscale :: "int \<Rightarrow> int \<Rightarrow> int" where
  "downscale input_h downscale_factor =
     (if 0 < downscale_factor \<and> 1080 * downscale_factor \<le> input_h
      then downscale input_h (downscale_factor * 2)
      else downscale_factor)"
  by pat_completeness auto
termination
  by (relation "measure (\<lambda>(h, f). nat (h - 1080 * f + 1))") auto

declare downscale.simps [simp del]

definition mpeg4_compressed_save_as_chunk ::
  "('enc \<Rightarrow> 'px video_frame option \<Rightarrow> 'p list \<times> 'enc) \<Rightarrow> 'enc \<Rightarrow> mpeg4_chunk_writer \<Rightarrow>
   ('px video_frame \<times> 'b \<times> 'c) list \<Rightarrow> string \<Rightarrow>
   (error + (int \<times> int) list) \<times> 'p output_container option" where
  "mpeg4_compressed_save_as_chunk encode enc self images chunk_path =
     (case peek_first_frame images of
        (None, _) \<Rightarrow> (Inl NoImagesToSave, None)
      | (Some first_frame, images') \<Rightarrow>
          let input_w = frame_width (fst first_frame);
              input_h = frame_height (fst first_frame);
              downscale_factor = downscale input_h 1;
              output_h = input_h div downscale_factor;
              output_w = input_w div downscale_factor;
              output_container = av_open chunk_path FORMAT
          in (case add_video_stream self output_container output_w output_h
                     (output_fps self) (codec_opts self) of
                Inl e \<Rightarrow> (Inl e, Some (container_close output_container))
              | Inr c1 \<Rightarrow>
                  (Inr [(input_w, input_h)],
                   Some (container_close (encode_images encode enc images' c1)))))"

subsection \<open>Zip chunk writers\<close>

text \<open>
  A frame handed to a zip writer is a decoded image, an in-memory buffer or a path. The
  files the writer reads are a map from paths to contents; the archive it creates is the
  list of its entries, name and content.
\<close>

record 'px pil_image =
  has_exif_rotation :: bool
  image_format :: "string option"
  image_pixels :: 'px

datatype 'px image = PilImage "'px pil_image" | BytesIO string | PathStr string

definition IMAGE_EXT :: string where
  "IMAGE_EXT = ''jpeg''"

definition POINT_CLOUD_EXT :: string where
  "POINT_CLOUD_EXT = ''pcd''"

text \<open>\<^verbatim>\<open>os.path.splitext(path)[1].replace('.', '')\<close>.\<close>

definition splitext_ext :: "string \<Rightarrow> string" where
  "splitext_ext path =
     (let base = rev (takeWhile (\<lambda>c. c \<noteq> CHR ''/'') (rev path));
          body = dropWhile (\<lambda>c. c = CHR ''.'') base
      in if CHR ''.'' \<in> set body then rev (takeWhile (\<lambda>c. c \<noteq> CHR ''.'') (rev body)) else [])"

text \<open>
  \<^verbatim>\<open>_write_pcd_file\<close>: the content of the buffer or of the file at the path, the
  point-cloud extension, and the width and height read from the header. Reading the
  header (\<^verbatim>\<open>get_pcd_properties\<close> and the two \<^verbatim>\<open>int\<close> conversions) is the parameter
  \<open>pcd_size\<close>.
\<close>

definition write_pcd_file ::
  "(string \<Rightarrow> error + int \<times> int) \<Rightarrow> (string \<rightharpoonup> string) \<Rightarrow> string + string \<Rightarrow>
   error + string \<times> string \<times> int \<times> int" where
  "write_pcd_file pcd_size files img =
     (case (case img of Inl path \<Rightarrow> (case files path of None \<Rightarrow> Inl FileNotFoundError
                                                         | Some content \<Rightarrow> Inr content)
                      | Inr buf \<Rightarrow> Inr buf) of
        Inl e \<Rightarrow> Inl e
      | Inr content \<Rightarrow>
          (case pcd_size content of
             Inl e \<Rightarrow> Inl e
           | Inr (w, h) \<Rightarrow> Inr (content, POINT_CLOUD_EXT, w, h)))"

text \<open>
  The body of the loop of \<^verbatim>\<open>ZipChunkWriter.save_as_chunk\<close> up to the archive name: the
  bytes or the path to store, and the extension. Re-encoding a rotated or TIFF image
  (\<^verbatim>\<open>ImageOps.exif_transpose\<close>, \<^verbatim>\<open>Image.save\<close>) is the parameter \<open>pil_save\<close>, given the
  image and the format.
\<close>

definition zip_frame_output ::
  "('px pil_image \<Rightarrow> string \<Rightarrow> string) \<Rightarrow> (string \<Rightarrow> error + int \<times> int) \<Rightarrow>
   (string \<rightharpoonup> string) \<Rightarrow> chunk_writer \<Rightarrow> 'px image \<Rightarrow> string \<Rightarrow>
   error + (string + string) \<times> string" where
  "zip_frame_output pil_save pcd_size files self img path =
     (let ext = splitext_ext path in
      if writer_dimension self = DIM_2D then
        (case img of
           PilImage im \<Rightarrow>
             if has_exif_rotation im \<or> image_format im = Some ''TIFF''
             then (if image_format im = Some ''TIFF''
                   then Inr (Inr (pil_save im ''TIFF''), ext)
                   else Inr (Inr (pil_save im (case image_format im of
                                                 Some f \<Rightarrow> if f = [] then IMAGE_EXT else f
                                               | None \<Rightarrow> IMAGE_EXT)), ext))
             else Inr (Inl path, ext)
         | BytesIO buf \<Rightarrow> Inr (Inr buf, ext)
         | PathStr _ \<Rightarrow> Inr (Inl path, ext))
      else
        (case (case img of BytesIO buf \<Rightarrow> write_pcd_file pcd_size files (Inr buf)
                         | _ \<Rightarrow> write_pcd_file pcd_size files (Inl path)) of
           Inl e \<Rightarrow> Inl e
         | Inr (content, ext', _, _) \<Rightarrow> Inr (Inr content, ext')))"

text \<open>
  The loop over \<^verbatim>\<open>enumerate(images)\<close>: each frame adds one entry named
  \<^verbatim>\<open>'{:06d}.{}'.format(idx, ext)\<close>; a path is read from the files when it is stored. The
  archive keeps the entries written before an exception.
\<close>

fun zip_write_frames ::
  "('px pil_image \<Rightarrow> string \<Rightarrow> string) \<Rightarrow> (string \<Rightarrow> error + int \<times> int) \<Rightarrow>
   (string \<rightharpoonup> string) \<Rightarrow> chunk_writer \<Rightarrow> nat \<Rightarrow> ('px image \<times> string \<times> 'c) list \<Rightarrow>
   (string \<times> string) list \<Rightarrow> error option \<times> (string \<times> string) list" where
  "zip_write_frames pil_save pcd_size files self idx [] zip_chunk = (None, zip_chunk)"
| "zip_write_frames pil_save pcd_size files self idx ((img, path, _) # images) zip_chunk =
     (case zip_frame_output pil_save pcd_size files self img path of
        Inl e \<Rightarrow> (Some e, zip_chunk)
      | Inr (output, ext) \<Rightarrow>
          let arcname = format_06d idx @ ''.'' @ ext in
          (case (case output of Inr bytes \<Rightarrow> Inr bytes
                              | Inl filename \<Rightarrow> (case files filename of
                                                   None \<Rightarrow> Inl FileNotFoundError
                                                 | Some content \<Rightarrow> Inr content)) of
             Inl e \<Rightarrow> (Some e, zip_chunk)
           | Inr content \<Rightarrow>
               zip_write_frames pil_save pcd_size files self (Suc idx) images
                 (zip_chunk @ [(arcname, content)])))"

text \<open>
  \<^verbatim>\<open>ZipChunkWriter.save_as_chunk\<close>: the outcome and the archive left at \<open>chunk_path\<close>,
  \<open>None\<close> when none was created. Mode \<^verbatim>\<open>'x'\<close> refuses an existing path.
\<close>

definition zip_save_as_chunk ::
  "('px pil_image \<Rightarrow> string \<Rightarrow> string) \<Rightarrow> (string \<Rightarrow> error + int \<times> int) \<Rightarrow>
   (string \<rightharpoonup> string) \<Rightarrow> chunk_writer \<Rightarrow> ('px image \<times> string \<times> 'c) list \<Rightarrow> string \<Rightarrow>
   (error + (int \<times> int) list) \<times> (string \<times> string) list option" where
  "zip_save_as_chunk pil_save pcd_size files self images chunk_path =
     (if files chunk_path \<noteq> None then (Inl FileExistsError, None)
      else
        (case zip_write_frames pil_save pcd_size files self 0 images [] of
           (Some e, zip_chunk) \<Rightarrow> (Inl e, Some zip_chunk)
         | (None, zip_chunk) \<Rightarrow> (Inr [], Some zip_chunk)))"

text \<open>
  \<^verbatim>\<open>ZipCompressedChunkWriter.save_as_chunk\<close>. \<open>compress_image\<close> is
  \<^verbatim>\<open>IChunkWriter._compress_image\<close> (image normalisation and JPEG encoding by the imaging
  library), \<open>probe_size\<close> the size \<^verbatim>\<open>Image.open\<close> reports for a buffer.
\<close>

fun zip_compressed_write_frames ::
  "('px image \<Rightarrow> int \<Rightarrow> error + int \<times> int \<times> string) \<Rightarrow> (string \<Rightarrow> int \<times> int) \<Rightarrow>
   (string \<Rightarrow> error + int \<times> int) \<Rightarrow> (string \<rightharpoonup> string) \<Rightarrow> chunk_writer \<Rightarrow> bool \<Rightarrow>
   nat \<Rightarrow> ('px image \<times> string \<times> 'c) list \<Rightarrow> (int \<times> int) list \<Rightarrow> (string \<times> string) list \<Rightarrow>
   error option \<times> (int \<times> int) list \<times> (string \<times> string) list" where
  "zip_compressed_write_frames compress_image probe_size pcd_size files self compress_frames
     idx [] image_sizes zip_chunk = (None, image_sizes, zip_chunk)"
| "zip_compressed_write_frames compress_image probe_size pcd_size files self compress_frames
     idx ((img, path, _) # images) image_sizes zip_chunk =
     (case (if writer_dimension self = DIM_2D then
              (if compress_frames then
                 (case compress_image img (image_quality self) of
                    Inl e \<Rightarrow> Inl e
                  | Inr (w, h, image_buf) \<Rightarrow> Inr (image_buf, IMAGE_EXT, w, h))
               else
                 (case img of
                    BytesIO buf \<Rightarrow> Inr (buf, IMAGE_EXT, fst (probe_size buf), snd (probe_size buf))
                  | _ \<Rightarrow> Inl AssertionError))
            else
              (case img of BytesIO buf \<Rightarrow> write_pcd_file pcd_size files (Inr buf)
                         | _ \<Rightarrow> write_pcd_file pcd_size files (Inl path))) of
        Inl e \<Rightarrow> (Some e, image_sizes, zip_chunk)
      | Inr (image_buf, extension, w, h) \<Rightarrow>
          zip_compressed_write_frames compress_image probe_size pcd_size files self
            compress_frames (Suc idx) images (image_sizes @ [(w, h)])
            (zip_chunk @ [(format_06d idx @ ''.'' @ extension, image_buf)]))"

definition zip_compressed_save_as_chunk ::
  "('px image \<Rightarrow> int \<Rightarrow> error + int \<times> int \<times> string) \<Rightarrow> (string \<Rightarrow> int \<times> int) \<Rightarrow>
   (string \<Rightarrow> error + int \<times> int) \<Rightarrow> (string \<rightharpoonup> string) \<Rightarrow> chunk_writer \<Rightarrow>
   ('px image \<times> string \<times> 'c) list \<Rightarrow> string \<Rightarrow> bool \<Rightarrow>
   (error + (int \<times> int) list) \<times> (string \<times> string) list option" where
  "zip_compressed_save_as_chunk compress_image probe_size pcd_size files self images
     chunk_path compress_frames =
     (if files chunk_path \<noteq> None then (Inl FileExistsError, None)
      else
        (case zip_compressed_write_frames compress_image probe_size pcd_size files self
                compress_frames 0 images [] [] of
           (Some e, _, zip_chunk) \<Rightarrow> (Inl e, Some zip_chunk)
         | (None, image_sizes, zip_chunk) \<Rightarrow> (Inr image_sizes, Some zip_chunk)))"

text \<open>
  What the specification asks of every chunk writer on an empty frame sequence: the call
  fails with the no-frames error.
\<close>

definition spec_rejects_empty :: "(error + (int \<times> int) list) \<Rightarrow> bool" where
  "spec_rejects_empty outcome \<longleftrightarrow> outcome = Inl NoImagesToSave"

subsection \<open>VideoReader\<close>

text \<open>
  A video is the sequence of frames its stream decodes to, and the rotation its metadata
  records, if any. \<open>rotate_image\<close> (conversion to an array, rotation by the angle and
  back) is a parameter.
\<close>

record 'px video =
  video_frames :: "'px video_frame list"
  rotate :: "int option"

record video_reader = "string list media_reader" +
  allow_threading :: bool
  frame_count :: "int option"
  frame_size :: "(int \<times> int) option"

definition VideoReader ::
  "string list \<Rightarrow> int \<Rightarrow> int \<Rightarrow> int option \<Rightarrow> DimensionType \<Rightarrow> bool \<Rightarrow> video_reader" where
  "VideoReader src stp strt stp_last dim threading =
     \<lparr>source_path = src, step = stp, start = strt, stop = stp_last, dimension = dim,
      allow_threading = threading, frame_count = None, frame_size = None\<rparr>"

text \<open>
  The argument \<^verbatim>\<open>frame_filter\<close>: \<^verbatim>\<open>True\<close>, a false value, or a sequence of frame
  numbers. The iterator made of it is \<^verbatim>\<open>itertools.count(start, step)\<close>, cut by
  \<^verbatim>\<open>takewhile\<close> at a last value when there is one, or the sequence itself.
\<close>

datatype frame_filter = Configured | AllFrames | Frames "int list"

datatype filter_iter = Counting int int "int option" | Listed "int list"

fun filter_next :: "filter_iter \<Rightarrow> int option \<times> filter_iter" where
  "filter_next (Counting cur st None) = (Some cur, Counting (cur + st) st None)"
| "filter_next (Counting cur st (Some lim)) =
     (if cur \<le> lim then (Some cur, Counting (cur + st) st (Some lim)) else (None, Listed []))"
| "filter_next (Listed []) = (None, Listed [])"
| "filter_next (Listed (x # xs)) = (Some x, Listed xs)"

definition make_filter :: "('src, 'z) media_reader_scheme \<Rightarrow> frame_filter \<Rightarrow> filter_iter" where
  "make_filter self ff =
     (case ff of
        Configured \<Rightarrow>
          (case stop self of
             None \<Rightarrow> Counting (start self) (step self) None
           | Some st \<Rightarrow> if st \<noteq> 0 then Counting (start self) (step self) (Some st)
                        else Counting (start self) (step self) None)
      | AllFrames \<Rightarrow> Counting 0 1 None
      | Frames xs \<Rightarrow> if xs = [] then Counting 0 1 None else Listed xs)"

text \<open>
  The decoding loop of \<^verbatim>\<open>iterate_frames\<close>: the frames left, the frame counter, the next
  requested frame number, the rest of the filter and \<^verbatim>\<open>self._frame_size\<close>; it gives the
  descriptors yielded and the frame size.
\<close>

fun iterate_loop ::
  "('px video_frame \<Rightarrow> int \<Rightarrow> 'px video_frame) \<Rightarrow> int option \<Rightarrow> string \<Rightarrow>
   'px video_frame list \<Rightarrow> int \<Rightarrow> int \<Rightarrow> filter_iter \<Rightarrow> (int \<times> int) option \<Rightarrow>
   ('px video_frame \<times> string \<times> int option) list \<times> (int \<times> int) option" where
  "iterate_loop rotate_image rot path [] frame_number next_frame fi fsize = ([], fsize)"
| "iterate_loop rotate_image rot path (frame # rest) frame_number next_frame fi fsize =
     (if frame_number = next_frame then
        let frame' = (case rot of
                        None \<Rightarrow> frame
                      | Some angle \<Rightarrow> (rotate_image frame (360 - angle))\<lparr>frame_pts := frame_pts frame\<rparr>);
            fsize' = (case fsize of
                        None \<Rightarrow> Some (frame_width frame', frame_height frame')
                      | Some z \<Rightarrow> Some z)
        in (case filter_next fi of
              (None, _) \<Rightarrow> ([(frame', path, frame_pts frame')], fsize')
            | (Some next_frame', fi') \<Rightarrow>
                (case iterate_loop rotate_image rot path rest (frame_number + 1) next_frame' fi' fsize' of
                   (ys, z) \<Rightarrow> ((frame', path, frame_pts frame') # ys, z)))
      else iterate_loop rotate_image rot path rest (frame_number + 1) next_frame fi fsize)"

text \<open>
  \<^verbatim>\<open>VideoReader.iterate_frames\<close> without a given stream, run to its end: the descriptors
  it yields and the reader, whose frame size the first yielded frame sets. The container
  is opened from \<^verbatim>\<open>self._source_path[0]\<close> once the filter has given a first frame number.
\<close>

definition iterate_frames ::
  "('px video_frame \<Rightarrow> int \<Rightarrow> 'px video_frame) \<Rightarrow> 'px video \<Rightarrow> video_reader \<Rightarrow> frame_filter \<Rightarrow>
   (error + ('px video_frame \<times> string \<times> int option) list) \<times> video_reader" where
  "iterate_frames rotate_image vid self ff =
     (case filter_next (make_filter self ff) of
        (None, _) \<Rightarrow> (Inr [], self)
      | (Some next_frame, fi) \<Rightarrow>
          (case source_path self of
             [] \<Rightarrow> (Inl IndexError, self)
           | path # _ \<Rightarrow>
               (case iterate_loop rotate_image (rotate vid) path (video_frames vid) 0 next_frame fi
                       (frame_size self) of
                  (ys, z) \<Rightarrow> (Inr ys, self\<lparr>frame_size := z\<rparr>))))"

definition get_frame_count ::
  "('px video_frame \<Rightarrow> int \<Rightarrow> 'px video_frame) \<Rightarrow> 'px video \<Rightarrow> video_reader \<Rightarrow>
   (error + int) \<times> video_reader" where
  "get_frame_count rotate_image vid self =
     (case frame_count self of
        Some n \<Rightarrow> (Inr n, self)
      | None \<Rightarrow>
          (case iterate_frames rotate_image vid self AllFrames of
             (Inl e, self1) \<Rightarrow> (Inl e, self1)
           | (Inr ys, self1) \<Rightarrow>
               (Inr (int (length ys)), self1\<lparr>frame_count := Some (int (length ys))\<rparr>)))"

subsection \<open>Point-cloud conversion\<close>


















section \<open>Verification\<close>

subsection \<open>RandomAccessIterator\<close>

lemma advance_done: "\<not> p < idx \<Longrightarrow> advance it p idx v = (Inr v, it, p)"
  by (cases it) simp_all

lemma advance_spec:
  "p < idx \<Longrightarrow> advance it p idx v =
     (if idx - p \<le> int (length it)
      then (Inr (Some (it ! nat (idx - p - 1))), drop (nat (idx - p)) it, idx)
      else (Inl StopIteration, [], p + int (length it)))"
proof (induction it arbitrary: p v)
  case Nil
  then show ?case by simp
next
  case (Cons x rest)
  show ?case
  proof (cases "p + 1 < idx")
    case True
    then have "nat (idx - p - 1) = Suc (nat (idx - (p + 1) - 1))"
      and "nat (idx - p) = Suc (nat (idx - (p + 1)))" by linarith+
    with True Cons.prems Cons.IH [of "p + 1" "Some x"] show ?thesis
      by (auto simp: algebra_simps)
  next
    case False
    with Cons.prems have "idx = p + 1" by simp
    then show ?thesis by (simp add: advance_done)
  qed
qed

lemma getitem_fresh:
  assumes "0 \<le> idx"
  shows "getitem (reset s) idx =
     (if idx < int (length (iterable s))
      then (Inr (Some (iterable s ! nat idx)),
            s\<lparr>iterator := Some (drop (nat (idx + 1)) (iterable s)), pos := idx\<rparr>)
      else (Inl StopIteration, s\<lparr>iterator := Some [], pos := int (length (iterable s)) - 1\<rparr>))"
  using assms
  by (simp add: getitem_def reset_def close_def advance_spec Let_def)

lemma getitem_restart:
  assumes "0 \<le> idx" "iterator s = None \<or> idx \<le> pos s"
  shows "getitem s idx = getitem (reset s) idx"
  using assms by (auto simp add: getitem_def reset_def close_def Let_def)

lemma getitem_forward:
  assumes "0 \<le> idx" "iterator s = Some (drop (nat (pos s + 1)) (iterable s))" "pos s < idx"
    "- 1 \<le> pos s" "pos s < int (length (iterable s))"
  shows "getitem s idx =
     (if idx < int (length (iterable s))
      then (Inr (Some (iterable s ! nat idx)),
            s\<lparr>iterator := Some (drop (nat (idx + 1)) (iterable s)), pos := idx\<rparr>)
      else (Inl StopIteration, s\<lparr>iterator := Some [], pos := int (length (iterable s)) - 1\<rparr>))"
proof -
  have 1: "nat (pos s + 1) + nat (idx - pos s - 1) = nat idx"
    and 2: "nat (idx - pos s) + nat (pos s + 1) = nat (idx + 1)"
    and 3: "pos s + int (length (iterable s) - nat (pos s + 1)) = int (length (iterable s)) - 1"
    using assms by linarith+
  show ?thesis using assms 1 2 3
    by (auto simp add: getitem_def Let_def advance_spec)
qed

lemma getitem_spec:
  assumes "iter_inv s"
  shows "getitem s idx =
     (if idx < 0 then (Inl AssertionError, s)
      else if idx < int (length (iterable s))
      then (Inr (Some (iterable s ! nat idx)),
            s\<lparr>iterator := Some (drop (nat (idx + 1)) (iterable s)), pos := idx\<rparr>)
      else (Inl StopIteration, s\<lparr>iterator := Some [], pos := int (length (iterable s)) - 1\<rparr>))"
proof (cases "0 \<le> idx")
  case False
  then show ?thesis by (simp add: getitem_def)
next
  case nonneg: True
  show ?thesis
  proof (cases "iterator s = None \<or> idx \<le> pos s")
    case True
    with nonneg show ?thesis
      by (simp only: getitem_restart [OF nonneg True] getitem_fresh [OF nonneg]) simp
  next
    case False
    then obtain it where it: "iterator s = Some it" and lt: "pos s < idx" by auto
    with assms have "iterator s = Some (drop (nat (pos s + 1)) (iterable s))"
      "- 1 \<le> pos s" "pos s < int (length (iterable s))"
      by (simp_all add: iter_inv_def)
    from getitem_forward [OF nonneg this(1) lt this(2,3)] nonneg show ?thesis by simp
  qed
qed

lemma getitem_inv:
  assumes "iter_inv s"
  shows "iter_inv (snd (getitem s idx))"
  using assms by (auto simp add: getitem_spec iter_inv_def split: option.splits)

lemma getitem_result:
  assumes "iter_inv s"
  shows "fst (getitem s idx) = lookup (iterable s) idx"
    and "iterable (snd (getitem s idx)) = iterable s"
    and "random_access_iterator.more (snd (getitem s idx)) = random_access_iterator.more s"
  using assms by (simp_all add: getitem_spec lookup_def)

lemma accesses_inv:
  "iter_inv s \<Longrightarrow> iter_inv (accesses s is) \<and> iterable (accesses s is) = iterable s"
  by (induction "is" arbitrary: s) (simp_all add: getitem_inv getitem_result)

lemma init_inv: "iter_inv (RandomAccessIterator xs)"
  by (simp add: iter_inv_def RandomAccessIterator_def)

text \<open>
  Claim C7. Over a restartable source, an access at index \<open>i\<close> gives the same outcome
  after any two sequences of earlier accesses, and in range it is the \<open>i\<close>-th value of
  the source. When \<open>i\<close> is at or before the cursor the access is the access on the reset
  iterator: it restarts from the first value and stops with the cursor at \<open>i\<close>, the
  values after \<open>i\<close> left in the iterator.
\<close>

theorem random_access_order_independent:
  "let s1 = accesses (RandomAccessIterator xs) ias;
       s2 = accesses (RandomAccessIterator xs) ibs
   in fst (getitem s1 i) = fst (getitem s2 i)
       \<and> (0 \<le> i \<and> i < int (length xs) \<longrightarrow> fst (getitem s1 i) = Inr (Some (xs ! nat i)))
       \<and> (0 \<le> i \<and> i \<le> pos s1 \<longrightarrow>
            getitem s1 i = getitem (reset s1) i
            \<and> snd (getitem s1 i) = s1\<lparr>iterator := Some (drop (nat i + 1) xs), pos := i\<rparr>)"
proof -
  define s1 where "s1 = accesses (RandomAccessIterator xs) ias"
  define s2 where "s2 = accesses (RandomAccessIterator xs) ibs"
  have inv: "iter_inv s1" "iterable s1 = xs" "iter_inv s2" "iterable s2 = xs"
    using accesses_inv [OF init_inv, of xs] by (simp_all add: s1_def s2_def RandomAccessIterator_def)
  have a: "fst (getitem s1 i) = fst (getitem s2 i)"
    using inv by (simp add: getitem_result)
  have b: "0 \<le> i \<and> i < int (length xs) \<longrightarrow> fst (getitem s1 i) = Inr (Some (xs ! nat i))"
    using inv by (simp add: getitem_result lookup_def)
  have c: "0 \<le> i \<and> i \<le> pos s1 \<longrightarrow>
            getitem s1 i = getitem (reset s1) i
            \<and> snd (getitem s1 i) = s1\<lparr>iterator := Some (drop (nat i + 1) xs), pos := i\<rparr>"
  proof (intro impI conjI)
    assume h: "0 \<le> i \<and> i \<le> pos s1"
    then show "getitem s1 i = getitem (reset s1) i" by (simp add: getitem_restart)
    from h inv have "i < int (length xs)"
      by (auto simp add: iter_inv_def split: option.splits)
    moreover have "nat (i + 1) = nat i + 1" using h by linarith
    ultimately show "snd (getitem s1 i) = s1\<lparr>iterator := Some (drop (nat i + 1) xs), pos := i\<rparr>"
      using h inv by (simp add: getitem_spec)
  qed
  from a b c show ?thesis unfolding Let_def s1_def s2_def by blast
qed

theorem random_access_order_independent_witness:
  "fst (getitem (accesses (RandomAccessIterator [10, 20, 30 :: nat]) [2, 0]) 1)
     = fst (getitem (accesses (RandomAccessIterator [10, 20, 30 :: nat]) [1, 1, 2]) 1)
   \<and> fst (getitem (accesses (RandomAccessIterator [10, 20, 30 :: nat]) [2, 0]) 1) = Inr (Some 20)
   \<and> pos (accesses (RandomAccessIterator [10, 20, 30 :: nat]) [1, 1, 2]) = 2
   \<and> snd (getitem (accesses (RandomAccessIterator [10, 20, 30 :: nat]) [1, 1, 2]) 1)
       = (accesses (RandomAccessIterator [10, 20, 30 :: nat]) [1, 1, 2])\<lparr>iterator := Some [30], pos := 1\<rparr>"
  using random_access_order_independent [of "[10, 20, 30 :: nat]" "[2, 0]" "[1, 1, 2]" 1]
    random_access_order_independent [of "[10, 20, 30 :: nat]" "[1, 1, 2]" "[]" 1]
  by (simp add: getitem_def RandomAccessIterator_def reset_def close_def Let_def)

subsection \<open>CachingMediaIterator\<close>

lemma getitem_keeps_cache:
  "cache (snd (getitem s idx)) = cache s"
  "used_cache_memory (snd (getitem s idx)) = used_cache_memory s"
  "max_cache_memory (snd (getitem s idx)) = max_cache_memory s"
  "max_cache_entries (snd (getitem s idx)) = max_cache_entries s"
  "object_size_callback (snd (getitem s idx)) = object_size_callback s"
  by (simp_all add: getitem_def reset_def close_def Let_def split: prod.splits option.splits)

lemma evict_fields:
  "used_cache_memory (snd (evict s v)) = used_cache_memory s
   \<and> max_cache_memory (snd (evict s v)) = max_cache_memory s
   \<and> max_cache_entries (snd (evict s v)) = max_cache_entries s
   \<and> object_size_callback (snd (evict s v)) = object_size_callback s"
proof (induction s v rule: evict.induct)
  case (1 s value_size)
  show ?case
    using "1.IH" [OF _ _ refl]
    by (subst (1 2 3 4) evict.simps) (auto simp add: Let_def)
qed

lemma evict_distinct:
  "distinct (map fst (cache s)) \<Longrightarrow> distinct (map fst (cache (snd (evict s v))))"
proof (induction s v rule: evict.induct)
  case (1 s value_size)
  show ?case
    using "1.IH" [OF _ _ refl] "1.prems"
    by (subst evict.simps) (auto simp add: Let_def distinct_delete)
qed

lemma evict_outcome:
  "(fst (evict s v) = None \<longrightarrow>
      int (length (cache (snd (evict s v)))) + 1 \<le> max_cache_entries s
      \<and> used_cache_memory s + v \<le> max_cache_memory s)
   \<and> (fst (evict s v) \<noteq> None \<longrightarrow> fst (evict s v) = Some ValueError \<and> cache (snd (evict s v)) = [])"
proof (induction s v rule: evict.induct)
  case (1 s value_size)
  show ?case
    using "1.IH" [OF _ _ refl]
    by (subst (1 2 3 4 5) evict.simps) (auto simp add: Let_def)
qed

text \<open>
  A value larger than the byte budget never leaves the eviction loop normally: the loop
  condition stays true, the cache runs empty and \<^verbatim>\<open>min\<close> raises.
\<close>

lemma evict_oversized:
  "max_cache_memory s < used_cache_memory s + v \<Longrightarrow> fst (evict s v) = Some ValueError"
proof (induction s v rule: evict.induct)
  case (1 s value_size)
  show ?case
    using "1.IH" [OF _ _ refl] "1.prems"
    by (subst evict.simps) (auto simp add: Let_def)
qed

lemma length_update_le: "length (AList.update k v al) \<le> Suc (length al)"
  by (induction al) auto

lemma caching_getitem_inv:
  assumes inv: "cache_inv s" and nn: "\<And>x. 0 \<le> get_object_size get_size s x"
  shows "cache_inv (snd (caching_getitem get_size s idx))"
    and "object_size_callback (snd (caching_getitem get_size s idx)) = object_size_callback s"
    and "max_cache_memory (snd (caching_getitem get_size s idx)) = max_cache_memory s"
    and "max_cache_entries (snd (caching_getitem get_size s idx)) = max_cache_entries s"
proof -
  let ?P = "\<lambda>s'. cache_inv s' \<and> object_size_callback s' = object_size_callback s
     \<and> max_cache_memory s' = max_cache_memory s \<and> max_cache_entries s' = max_cache_entries s"
  have "?P (snd (caching_getitem get_size s idx))"
  proof (cases "map_of (cache s) idx")
    case (Some c)
    then show ?thesis using inv by (simp add: caching_getitem_def)
  next
    case miss: None
    obtain r s1 where g: "getitem s idx = (r, s1)" by (cases "getitem s idx")
    have s1: "cache s1 = cache s" "used_cache_memory s1 = used_cache_memory s"
      "max_cache_memory s1 = max_cache_memory s" "max_cache_entries s1 = max_cache_entries s"
      "object_size_callback s1 = object_size_callback s"
      using getitem_keeps_cache [of s idx] g by simp_all
    then have P1: "?P s1" using inv by (simp add: cache_inv_def)
    show ?thesis
    proof (cases r)
      case (Inl e)
      then show ?thesis using P1 by (simp add: caching_getitem_def miss g)
    next
      case (Inr vo)
      show ?thesis
      proof (cases vo)
        case None
        then show ?thesis using P1 Inr by (simp add: caching_getitem_def miss g)
      next
        case (Some v)
        define vs where "vs = get_object_size get_size s1 v"
        have vs: "0 \<le> vs" using nn [of v] s1 by (simp add: vs_def get_object_size_def)
        obtain e s2 where ev: "evict s1 vs = (e, s2)" by (cases "evict s1 vs")
        have f: "used_cache_memory s2 = 0" "max_cache_memory s2 = max_cache_memory s"
          "max_cache_entries s2 = max_cache_entries s"
          "object_size_callback s2 = object_size_callback s"
          using evict_fields [of s1 vs] ev s1 inv by (simp_all add: cache_inv_def)
        have d: "distinct (map fst (cache s2))"
          using evict_distinct [of s1 vs] ev s1 inv by (simp add: cache_inv_def)
        show ?thesis
        proof (cases e)
          case (Some err)
          then have "cache s2 = []" using evict_outcome [of s1 vs] ev by simp
          then have "?P s2" using f by (simp add: cache_inv_def)
          then show ?thesis
            using Some Inr \<open>vo = Some v\<close>
            by (simp add: caching_getitem_def miss g vs_def [symmetric] ev)
        next
          case None
          then have b: "int (length (cache s2)) + 1 \<le> max_cache_entries s"
            "vs \<le> max_cache_memory s"
            using evict_outcome [of s1 vs] ev s1 inv by (simp_all add: cache_inv_def)
          let ?s3 = "s2\<lparr>cache := AList.update idx \<lparr>item_value = v, item_size = vs\<rparr> (cache s2)\<rparr>"
          have "int (length (cache ?s3)) \<le> max_cache_entries s"
            using b(1) length_update_le [of idx "\<lparr>item_value = v, item_size = vs\<rparr>" "cache s2"]
            by simp
          then have "?P ?s3"
            using f d b(2) vs by (simp add: cache_inv_def distinct_update)
          then show ?thesis
            using None Inr \<open>vo = Some v\<close> f b(2)
            by (simp add: caching_getitem_def miss g vs_def [symmetric] ev)
        qed
      qed
    qed
  qed
  then show "cache_inv (snd (caching_getitem get_size s idx))"
    and "object_size_callback (snd (caching_getitem get_size s idx)) = object_size_callback s"
    and "max_cache_memory (snd (caching_getitem get_size s idx)) = max_cache_memory s"
    and "max_cache_entries (snd (caching_getitem get_size s idx)) = max_cache_entries s"
    by simp_all
qed

lemma caching_accesses_inv:
  assumes "cache_inv s" and "\<And>x. 0 \<le> get_object_size get_size s x"
  shows "cache_inv (caching_accesses get_size s idxs)
       \<and> object_size_callback (caching_accesses get_size s idxs) = object_size_callback s
       \<and> max_cache_memory (caching_accesses get_size s idxs) = max_cache_memory s
       \<and> max_cache_entries (caching_accesses get_size s idxs) = max_cache_entries s"
  using assms
proof (induction idxs arbitrary: s)
  case Nil
  then show ?case by simp
next
  case (Cons i idxs)
  let ?s = "snd (caching_getitem get_size s i)"
  note st = caching_getitem_inv [of s get_size i, OF Cons.prems(1) Cons.prems(2)]
  have "\<And>x. 0 \<le> get_object_size get_size ?s x"
    using Cons.prems(2) st(2) by (simp add: get_object_size_def)
  from Cons.IH [OF st(1) this] st show ?case by simp
qed

text \<open>
  What the code does keep, with non-negative object sizes: after every access of any
  access sequence the cache has distinct keys, and either the field \<open>used_cache_memory\<close>
  is within \<open>max_cache_memory\<close> and the number of entries within \<open>max_cache_entries\<close>,
  or the accessed index is not in the cache. The field is always 0, so this says nothing
  of the bytes the cache holds.
\<close>

lemma counter_and_entry_limit:
  assumes "\<And>x. 0 \<le> get_object_size get_size (CachingMediaIterator xs max_memory max_entries callback) x"
  shows "let s = caching_accesses get_size
                   (CachingMediaIterator xs max_memory max_entries callback) idxs;
             s' = snd (caching_getitem get_size s idx)
         in distinct (map fst (cache s'))
            \<and> ((used_cache_memory s' \<le> max_memory \<and> int (length (cache s')) \<le> max_entries)
                \<or> map_of (cache s') idx = None)"
proof -
  let ?s0 = "CachingMediaIterator xs max_memory max_entries callback"
  define s where "s = caching_accesses get_size ?s0 idxs"
  define s' where "s' = snd (caching_getitem get_size s idx)"
  have inv0: "cache_inv ?s0"
    by (simp add: cache_inv_def CachingMediaIterator_def)
  have s: "cache_inv s" "object_size_callback s = object_size_callback ?s0"
    "max_cache_memory s = max_memory" "max_cache_entries s = max_entries"
    using caching_accesses_inv [of ?s0 get_size idxs, OF inv0 assms]
    by (simp_all add: s_def CachingMediaIterator_def)
  have nn: "\<And>x. 0 \<le> get_object_size get_size s x"
    using assms s(2) by (simp add: get_object_size_def)
  have s': "cache_inv s'" "max_cache_memory s' = max_memory" "max_cache_entries s' = max_entries"
    using caching_getitem_inv [of s get_size idx, OF s(1) nn] s by (simp_all add: s'_def)
  have "map_of (cache s') idx = None" if "cache s' = []"
    using that by simp
  then have "distinct (map fst (cache s'))
            \<and> ((used_cache_memory s' \<le> max_memory \<and> int (length (cache s')) \<le> max_entries)
                \<or> map_of (cache s') idx = None)"
    using s' by (auto simp add: cache_inv_def)
  then show ?thesis by (simp add: Let_def s'_def s_def)
qed

text \<open>
  Claim C1. The bytes held do not stay within the budget: over values of one, two and
  three bytes, with a budget of four bytes and at most two entries, the accesses 0, 1, 2
  leave the entries 1 and 2 in the cache, five bytes, with the value of the last access
  cached.
\<close>

theorem cached_bytes_over_budget_after_access:
  "(let s = caching_accesses (\<lambda>v. int (length v))
              (CachingMediaIterator [''a'', ''bb'', ''ccc''] 4 2 None) [0, 1];
        r = caching_getitem (\<lambda>v. int (length v)) s 2
    in fst r = Inr ''ccc'' \<and> map fst (cache (snd r)) = [1, 2]
       \<and> map_of (cache (snd r)) 2 = Some \<lparr>item_value = ''ccc'', item_size = 3\<rparr>
       \<and> cached_bytes (snd r) = 5 \<and> max_cache_memory (snd r) = 4
       \<and> int (length (cache (snd r))) \<le> max_cache_entries (snd r))"
  by (simp add: caching_getitem_def getitem_def reset_def close_def Let_def
         CachingMediaIterator_def get_object_size_def evict.simps cached_bytes_def)

text \<open>
  Claim C2. The byte counter does not follow the cache: one access that caches a value of
  six bytes leaves \<open>used_cache_memory\<close> at 0.
\<close>

theorem used_memory_not_tracked:
  "(let r = caching_getitem (\<lambda>v. int (length v))
              (CachingMediaIterator [''frame0''] 10 2 None) 0
    in fst r = Inr ''frame0'' \<and> used_cache_memory (snd r) = 0 \<and> cached_bytes (snd r) = 6)"
  by (simp add: caching_getitem_def getitem_def reset_def close_def Let_def
         CachingMediaIterator_def get_object_size_def evict.simps cached_bytes_def)

text \<open>
  The bytes held can so exceed the budget: two values of six bytes are both cached under a
  budget of ten.
\<close>

lemma cached_bytes_exceed_budget:
  "(let s = caching_accesses (\<lambda>v. int (length v))
              (CachingMediaIterator [''frame0'', ''frame1''] 10 2 None) [0, 1]
    in map fst (cache s) = [0, 1] \<and> cached_bytes s = 12 \<and> used_cache_memory s = 0)"
  by (simp add: caching_getitem_def getitem_def reset_def close_def Let_def
         CachingMediaIterator_def get_object_size_def evict.simps cached_bytes_def)

text \<open>
  Claim C3. A fetched value of six bytes under a budget of three is not returned: the
  access raises \<open>ValueError\<close> from the eviction loop.
\<close>

theorem oversized_value_raises:
  "fst (caching_getitem (\<lambda>v. int (length v)) (CachingMediaIterator [''frame0''] 3 5 None) 0)
     = Inl ValueError"
  by (simp add: caching_getitem_def getitem_def reset_def close_def Let_def
         CachingMediaIterator_def get_object_size_def evict.simps)

lemma oversized_miss_raises:
  assumes "map_of (cache s) idx = None" and "getitem s idx = (Inr (Some v), s1)"
    and "max_cache_memory s < used_cache_memory s + get_object_size get_size s1 v"
  shows "fst (caching_getitem get_size s idx) = Inl ValueError"
proof -
  have "max_cache_memory s1 < used_cache_memory s1 + get_object_size get_size s1 v"
    using assms getitem_keeps_cache [of s idx] by simp
  from evict_oversized [OF this] assms(1,2) show ?thesis
    by (auto simp add: caching_getitem_def Let_def split: prod.splits option.splits)
qed

subsection \<open>ImageListReader\<close>

text \<open>
  Claim C5, as stated, fails for an explicit last index 0: the constructor treats it as
  not supplied, and the reader over three entries has length 3 where the specification
  gives 1.
\<close>

theorem reader_len_stop_zero_counterexample:
  "and_then (ImageListReader id id [''a'', ''b'', ''c''] 1 0 (Some 0) DIM_2D PREDEFINED) reader_len
     = Inr 3
   \<and> spec_reader_len 3 0 (Some 0) 1 = Inr 1"
  by (simp add: ImageListReader_def and_then_def reader_len_def len_range_def range_len_def
      spec_reader_len_def sort_images_def Let_def sys_maxsize_def)

text \<open>
  Claim C5, amended. Over a non-empty source, with the first index at or below the
  effective last index, the reader is constructed and \<open>len\<close> of it is \<open>len\<close> of
  \<open>range(start, stop + 1, max(step, 1))\<close>, where the last index is \<open>len(source) - 1\<close>
  when it is not supplied or supplied as 0, and the minimum of \<open>len(source) - 1\<close> and the
  supplied value otherwise: the number of elements of that range when it is at most
  \<^verbatim>\<open>sys.maxsize\<close>, and \<open>OverflowError\<close> when it is more. For a step of at least 1
  and a last index other than 0 this is the outcome the specification gives.
\<close>

theorem reader_len_is_range_len:
  assumes "src \<noteq> []"
    and "strt \<le> (case stp_last of None \<Rightarrow> int (length src) - 1
                  | Some st \<Rightarrow> if st = 0 then int (length src) - 1
                               else min (int (length src) - 1) st)"
  shows "and_then (ImageListReader os_sorted shuffle src stp strt stp_last dim sorting) reader_len
           = len_range strt
               ((case stp_last of None \<Rightarrow> int (length src) - 1
                 | Some st \<Rightarrow> if st = 0 then int (length src) - 1
                              else min (int (length src) - 1) st) + 1) (max stp 1)
       \<and> and_then (ImageListReader os_sorted shuffle src stp strt stp_last dim sorting) reader_len
           = (if sys_maxsize < range_len strt
                   ((case stp_last of None \<Rightarrow> int (length src) - 1
                     | Some st \<Rightarrow> if st = 0 then int (length src) - 1
                                  else min (int (length src) - 1) st) + 1) (max stp 1)
              then Inl OverflowError
              else Inr (range_len strt
                   ((case stp_last of None \<Rightarrow> int (length src) - 1
                     | Some st \<Rightarrow> if st = 0 then int (length src) - 1
                                  else min (int (length src) - 1) st) + 1) (max stp 1)))
       \<and> (1 \<le> stp \<and> stp_last \<noteq> Some 0 \<longrightarrow>
            and_then (ImageListReader os_sorted shuffle src stp strt stp_last dim sorting) reader_len
              = spec_reader_len (length src) strt stp_last stp)"
  using assms
  by (auto simp add: ImageListReader_def and_then_def reader_len_def len_range_def Let_def
      spec_reader_len_def max_def split: option.splits)

theorem reader_len_is_range_len_witness:
  "[''a'', ''b'', ''c'', ''d'', ''e''] \<noteq> []
   \<and> (1::int) \<le> (case Some 10 of None \<Rightarrow> int (length [''a'', ''b'', ''c'', ''d'', ''e'']) - 1
                  | Some st \<Rightarrow> if st = 0 then int (length [''a'', ''b'', ''c'', ''d'', ''e'']) - 1
                     else min (int (length [''a'', ''b'', ''c'', ''d'', ''e'']) - 1) st)
   \<and> and_then (ImageListReader id id [''a'', ''b'', ''c'', ''d'', ''e''] 2 1 (Some 10)
                 DIM_2D LEXICOGRAPHICAL) reader_len = Inr 2
   \<and> spec_reader_len 5 1 (Some 10) 2 = Inr 2"
  using reader_len_is_range_len [of "[''a'', ''b'', ''c'', ''d'', ''e'']" 1 "Some 10" id id 2
      DIM_2D LEXICOGRAPHICAL]
  by (simp add: range_len_def spec_reader_len_def len_range_def sys_maxsize_def)

text \<open>
  A range longer than \<^verbatim>\<open>sys.maxsize\<close>: from the first index \<open>- 2 ^ 63\<close> over three
  entries, \<open>len\<close> of the reader raises as \<open>len\<close> of the range does.
\<close>

lemma reader_len_overflow:
  "and_then (ImageListReader id id [''a'', ''b'', ''c''] 1 (- (2 ^ 63)) None DIM_2D PREDEFINED)
     reader_len = Inl OverflowError"
  by (simp add: ImageListReader_def and_then_def reader_len_def len_range_def range_len_def
      sort_images_def Let_def sys_maxsize_def)

subsection \<open>Keyframe lookup\<close>

lemma bisect_right_spec:
  assumes "sorted (map key a)" and "lo \<le> hi" and "hi \<le> length a"
    and "\<forall>i<lo. key (a ! i) \<le> x"
    and "\<forall>i. hi \<le> i \<and> i < length a \<longrightarrow> x < key (a ! i)"
  shows "lo \<le> bisect_right a x key lo hi \<and> bisect_right a x key lo hi \<le> hi
       \<and> (\<forall>i<bisect_right a x key lo hi. key (a ! i) \<le> x)
       \<and> (\<forall>i. bisect_right a x key lo hi \<le> i \<and> i < length a \<longrightarrow> x < key (a ! i))"
  using assms
proof (induction a x key lo hi rule: bisect_right.induct)
  case (1 a x key lo hi)
  have mono: "key (a ! i) \<le> key (a ! j)" if "i \<le> j" "j < length a" for i j
    using sorted_nth_mono [OF "1.prems"(1), of i j] that by simp
  show ?case
  proof (cases "lo < hi")
    case False
    with "1.prems" show ?thesis by (simp add: bisect_right.simps)
  next
    case True
    define mid where "mid = (lo + hi) div 2"
    have mid: "lo \<le> mid" "mid < hi" using True by (simp_all add: mid_def)
    show ?thesis
    proof (cases "x < key (a ! mid)")
      case left: True
      have up: "\<forall>i. mid \<le> i \<and> i < length a \<longrightarrow> x < key (a ! i)"
        using left mono by (meson le_less_trans not_le order_trans)
      have "mid \<le> length a" using mid "1.prems"(3) by simp
      from "1.IH"(1) [OF True mid_def left "1.prems"(1) mid(1) this "1.prems"(4) up]
      have "lo \<le> bisect_right a x key lo mid \<and> bisect_right a x key lo mid \<le> mid
        \<and> (\<forall>i<bisect_right a x key lo mid. key (a ! i) \<le> x)
        \<and> (\<forall>i. bisect_right a x key lo mid \<le> i \<and> i < length a \<longrightarrow> x < key (a ! i))" .
      moreover have "bisect_right a x key lo hi = bisect_right a x key lo mid"
        using True left by (subst bisect_right.simps) (simp add: mid_def Let_def)
      ultimately show ?thesis using mid by auto
    next
      case right: False
      have low: "\<forall>i<mid + 1. key (a ! i) \<le> x"
      proof (intro allI impI)
        fix i assume "i < mid + 1"
        then have "key (a ! i) \<le> key (a ! mid)"
          using mono [of i mid] mid "1.prems"(3) by simp
        with right show "key (a ! i) \<le> x" by simp
      qed
      have "mid + 1 \<le> hi" using mid by simp
      from "1.IH"(2) [OF True mid_def right "1.prems"(1) this "1.prems"(3) low "1.prems"(5)]
      have "mid + 1 \<le> bisect_right a x key (mid + 1) hi \<and> bisect_right a x key (mid + 1) hi \<le> hi
        \<and> (\<forall>i<bisect_right a x key (mid + 1) hi. key (a ! i) \<le> x)
        \<and> (\<forall>i. bisect_right a x key (mid + 1) hi \<le> i \<and> i < length a \<longrightarrow> x < key (a ! i))" .
      moreover have "bisect_right a x key lo hi = bisect_right a x key (mid + 1) hi"
        using True right by (subst bisect_right.simps) (simp add: mid_def Let_def)
      ultimately show ?thesis using mid by auto
    qed
  qed
qed

lemma bisect_spec:
  assumes "sorted (map key a)"
  shows "bisect a x key \<le> length a
       \<and> (\<forall>i<bisect a x key. key (a ! i) \<le> x)
       \<and> (\<forall>i. bisect a x key \<le> i \<and> i < length a \<longrightarrow> x < key (a ! i))"
  using bisect_right_spec [OF assms, of 0 "length a" x] by (simp add: bisect_def)

text \<open>
  Claim C6. Over a keyframe index ascending by frame number, the lookup returns frame 0
  and timestamp 0 for an empty index; when some entry is at or before the requested frame
  it returns the number and timestamp of such an entry whose number is the largest at or
  before the request; when every entry is after the request it returns frame 0 and
  timestamp 0.
\<close>

theorem nearest_left_key_frame:
  assumes "sorted (map number manifest)"
  shows "(manifest = [] \<longrightarrow> get_nearest_left_key_frame manifest frame_id = (0, 0))
       \<and> ((\<exists>e\<in>set manifest. number e \<le> frame_id) \<longrightarrow>
            (\<exists>e\<in>set manifest.
               get_nearest_left_key_frame manifest frame_id = (number e, pts e)
               \<and> number e \<le> frame_id
               \<and> (\<forall>e'\<in>set manifest. number e' \<le> frame_id \<longrightarrow> number e' \<le> number e)))
       \<and> ((\<forall>e\<in>set manifest. frame_id < number e) \<longrightarrow>
            get_nearest_left_key_frame manifest frame_id = (0, 0))"
proof -
  define p where "p = bisect manifest frame_id number"
  have p: "p \<le> length manifest" "\<forall>i<p. number (manifest ! i) \<le> frame_id"
    "\<forall>i. p \<le> i \<and> i < length manifest \<longrightarrow> frame_id < number (manifest ! i)"
    using bisect_spec [OF assms, of frame_id] by (simp_all add: p_def)
  have mono: "number (manifest ! i) \<le> number (manifest ! j)" if "i \<le> j" "j < length manifest" for i j
    using sorted_nth_mono [OF assms, of i j] that by simp
  have a: "manifest = [] \<longrightarrow> get_nearest_left_key_frame manifest frame_id = (0, 0)"
  proof
    assume "manifest = []"
    with p(1) have "bisect manifest frame_id number = 0" by (simp add: p_def)
    then show "get_nearest_left_key_frame manifest frame_id = (0, 0)"
      by (simp add: get_nearest_left_key_frame_def)
  qed
  have c: "(\<forall>e\<in>set manifest. frame_id < number e) \<longrightarrow>
            get_nearest_left_key_frame manifest frame_id = (0, 0)"
  proof
    assume h: "\<forall>e\<in>set manifest. frame_id < number e"
    have "p = 0"
    proof (rule ccontr)
      assume "p \<noteq> 0"
      then have "0 < p" by simp
      then have "number (manifest ! 0) \<le> frame_id" using p(2) by blast
      moreover have "0 < length manifest" using \<open>0 < p\<close> p(1) by (rule less_le_trans)
      then have "manifest ! 0 \<in> set manifest" by (rule nth_mem)
      then have "frame_id < number (manifest ! 0)" using h by blast
      ultimately show False by simp
    qed
    then show "get_nearest_left_key_frame manifest frame_id = (0, 0)"
      by (simp add: get_nearest_left_key_frame_def p_def [symmetric])
  qed
  have b: "(\<exists>e\<in>set manifest. number e \<le> frame_id) \<longrightarrow>
            (\<exists>e\<in>set manifest.
               get_nearest_left_key_frame manifest frame_id = (number e, pts e)
               \<and> number e \<le> frame_id
               \<and> (\<forall>e'\<in>set manifest. number e' \<le> frame_id \<longrightarrow> number e' \<le> number e))"
  proof
    assume "\<exists>e\<in>set manifest. number e \<le> frame_id"
    then obtain j where j: "j < length manifest" "number (manifest ! j) \<le> frame_id"
      by (auto simp add: in_set_conv_nth)
    have "j < p" using j p(3) by (meson not_le)
    then have pos: "p \<noteq> 0" by simp
    let ?e = "manifest ! (p - 1)"
    have "p - 1 < length manifest" using pos p(1) by linarith
    then have e_in: "?e \<in> set manifest" by (rule nth_mem)
    have res: "get_nearest_left_key_frame manifest frame_id = (number ?e, pts ?e)"
      using pos by (simp add: get_nearest_left_key_frame_def p_def [symmetric])
    have le: "number ?e \<le> frame_id" using p(2) pos by simp
    have best: "\<forall>e'\<in>set manifest. number e' \<le> frame_id \<longrightarrow> number e' \<le> number ?e"
    proof (intro ballI impI)
      fix e' assume "e' \<in> set manifest" "number e' \<le> frame_id"
      then obtain i where i: "i < length manifest" "manifest ! i = e'"
        by (auto simp add: in_set_conv_nth)
      with \<open>number e' \<le> frame_id\<close> p(3) have "i < p" by (meson not_le)
      then have "number (manifest ! i) \<le> number ?e"
        using mono [of i "p - 1"] p(1) pos by simp
      with i show "number e' \<le> number ?e" by simp
    qed
    from e_in res le best show "\<exists>e\<in>set manifest.
               get_nearest_left_key_frame manifest frame_id = (number e, pts e)
               \<and> number e \<le> frame_id
               \<and> (\<forall>e'\<in>set manifest. number e' \<le> frame_id \<longrightarrow> number e' \<le> number e)"
      by blast
  qed
  from a b c show ?thesis by blast
qed

theorem nearest_left_key_frame_witness:
  "sorted (map number [\<lparr>number = 0, pts = 0\<rparr>, \<lparr>number = 50, pts = 512\<rparr>, \<lparr>number = 100, pts = 1024\<rparr>])
   \<and> (\<exists>e\<in>set [\<lparr>number = 0, pts = 0\<rparr>, \<lparr>number = 50, pts = 512\<rparr>, \<lparr>number = 100, pts = 1024\<rparr>].
         number e \<le> 75)
   \<and> get_nearest_left_key_frame
        [\<lparr>number = 0, pts = 0\<rparr>, \<lparr>number = 50, pts = 512\<rparr>, \<lparr>number = 100, pts = 1024\<rparr>] 75
       = (50, 512)
   \<and> get_nearest_left_key_frame [] 75 = (0, 0)"
proof -
  let ?m = "[\<lparr>number = 0, pts = 0\<rparr>, \<lparr>number = 50, pts = 512\<rparr>, \<lparr>number = 100, pts = 1024\<rparr>]"
  have s: "sorted (map number ?m)" by simp
  have e: "\<exists>e\<in>set ?m. number e \<le> 75" by simp
  from nearest_left_key_frame [OF s, of 75] e
  have "get_nearest_left_key_frame ?m 75 = (50, 512)" by auto
  moreover from nearest_left_key_frame [of "[]" 75]
  have "get_nearest_left_key_frame [] 75 = (0, 0)" by simp
  ultimately show ?thesis using s e by blast
qed

subsection \<open>Chunk writers\<close>

lemma max_resolution: "push_bit 8 MAX_MBS_PER_FRAME = (9437184 :: int)"
  by (simp add: MAX_MBS_PER_FRAME_def push_bit_eq_mult)

text \<open>
  Claim C4. Whatever the writer (so for every quality), when the first frame's width and
  height, each rounded up to even, have a product above \<open>36864 << 8\<close>, \<open>save_as_chunk\<close>
  raises the validation error; the output container is closed with no stream added and
  no packet muxed, so encoding never started and no file is left at the chunk path.
\<close>

theorem mpeg4_resolution_overflow:
  assumes "images = first_frame # rest"
    and "(if frame_height (fst first_frame) mod 2 \<noteq> 0 then frame_height (fst first_frame) + 1
          else frame_height (fst first_frame))
       * (if frame_width (fst first_frame) mod 2 \<noteq> 0 then frame_width (fst first_frame) + 1
          else frame_width (fst first_frame)) > push_bit 8 36864"
  shows "fst (mpeg4_save_as_chunk encode enc self images chunk_path) = Inl ValidationError
       \<and> (\<exists>c. snd (mpeg4_save_as_chunk encode enc self images chunk_path) = Some c
              \<and> container_path c = chunk_path \<and> closed c
              \<and> streams c = [] \<and> muxed c = [] \<and> output_file c = None)"
  using assms
  by (simp add: mpeg4_save_as_chunk_def peek_first_frame_def add_video_stream_def Let_def
      MAX_MBS_PER_FRAME_def av_open_def container_close_def output_file_def)

theorem mpeg4_resolution_overflow_witness:
  "[(\<lparr>frame_width = 4096, frame_height = 2305, frame_pts = Some 0, frame_time_base = None,
       frame_pixels = ()\<rparr>, ''video.mp4'', 0 :: int)]
     = (\<lparr>frame_width = 4096, frame_height = 2305, frame_pts = Some 0, frame_time_base = None,
         frame_pixels = ()\<rparr>, ''video.mp4'', 0) # []
   \<and> (2306 :: int) * 4096 > push_bit 8 36864
   \<and> fst (mpeg4_save_as_chunk (\<lambda>enc f. ([0 :: nat], enc)) ()
        \<lparr>image_quality = 17, writer_dimension = DIM_2D, output_fps = 25,
         codec_name = ''libopenh264'', codec_opts = []\<rparr>
        [(\<lparr>frame_width = 4096, frame_height = 2305, frame_pts = Some 0, frame_time_base = None,
           frame_pixels = ()\<rparr>, ''video.mp4'', 0 :: int)] ''chunk.mp4'') = Inl ValidationError"
  using mpeg4_resolution_overflow [of
      "[(\<lparr>frame_width = 4096, frame_height = 2305, frame_pts = Some 0, frame_time_base = None,
          frame_pixels = ()\<rparr>, ''video.mp4'', 0 :: int)]"
      "(\<lparr>frame_width = 4096, frame_height = 2305, frame_pts = Some 0, frame_time_base = None,
         frame_pixels = ()\<rparr>, ''video.mp4'', 0 :: int)" "[]"
      "\<lambda>enc f. ([0 :: nat], enc)" "()"
      "\<lparr>image_quality = 17, writer_dimension = DIM_2D, output_fps = 25,
        codec_name = ''libopenh264'', codec_opts = []\<rparr>" "''chunk.mp4''"]
  by (simp add: push_bit_eq_mult)

text \<open>
  Claim C9, as stated, fails for the zip writers: on an empty frame sequence both create
  an empty archive at the chunk path and return normally.
\<close>

theorem zip_writers_accept_empty_counterexample:
  "\<not> spec_rejects_empty (fst (zip_save_as_chunk (\<lambda>im f. []) (\<lambda>content. Inr (0, 0)) Map.empty
        \<lparr>image_quality = 100, writer_dimension = DIM_2D\<rparr>
        ([] :: (unit image \<times> string \<times> unit) list) ''chunk.zip''))
   \<and> zip_save_as_chunk (\<lambda>im f. []) (\<lambda>content. Inr (0, 0)) Map.empty
        \<lparr>image_quality = 100, writer_dimension = DIM_2D\<rparr>
        ([] :: (unit image \<times> string \<times> unit) list) ''chunk.zip'' = (Inr [], Some [])
   \<and> zip_compressed_save_as_chunk (\<lambda>im q. Inr (0, 0, [])) (\<lambda>buf. (0, 0)) (\<lambda>content. Inr (0, 0))
        Map.empty \<lparr>image_quality = 70, writer_dimension = DIM_2D\<rparr>
        ([] :: (unit image \<times> string \<times> unit) list) ''chunk.zip'' True = (Inr [], Some [])"
  by (simp add: zip_save_as_chunk_def zip_compressed_save_as_chunk_def spec_rejects_empty_def)

text \<open>
  Claim C9, amended. The two video writers reject an empty frame sequence: the call fails
  with the no-frames error before any output container is opened, so nothing is written
  at the chunk path.
\<close>

theorem video_writers_reject_empty:
  "mpeg4_save_as_chunk encode enc self [] chunk_path = (Inl NoImagesToSave, None)
   \<and> mpeg4_compressed_save_as_chunk encode enc self [] chunk_path = (Inl NoImagesToSave, None)
   \<and> spec_rejects_empty (fst (mpeg4_save_as_chunk encode enc self [] chunk_path))
   \<and> spec_rejects_empty (fst (mpeg4_compressed_save_as_chunk encode enc self [] chunk_path))"
  by (simp add: mpeg4_save_as_chunk_def mpeg4_compressed_save_as_chunk_def peek_first_frame_def
      spec_rejects_empty_def)

subsection \<open>VideoReader\<close>

lemma iterate_loop_all:
  "length (fst (iterate_loop rotate_image rot path frames n n (Counting (n + 1) 1 None) fsize))
     = length frames"
proof (induction frames arbitrary: n fsize)
  case Nil
  then show ?case by simp
next
  case (Cons frame rest)
  show ?case
    using Cons.IH [of "n + 1"]
    by (simp add: Let_def case_prod_beta)
qed

lemma iterate_frames_all:
  assumes "source_path self \<noteq> []"
  shows "\<exists>ys z. iterate_frames rotate_image vid self AllFrames = (Inr ys, self\<lparr>frame_size := z\<rparr>)
           \<and> length ys = length (video_frames vid)"
proof -
  obtain path ps where p: "source_path self = path # ps"
    using assms by (cases "source_path self") auto
  obtain ys z where l: "iterate_loop rotate_image (rotate vid) path (video_frames vid) 0 0
      (Counting (0 + 1) 1 None) (frame_size self) = (ys, z)"
    by (cases "iterate_loop rotate_image (rotate vid) path (video_frames vid) 0 0
      (Counting (0 + 1) 1 None) (frame_size self)")
  have "length ys = length (video_frames vid)"
    using iterate_loop_all [of rotate_image "rotate vid" path "video_frames vid" 0 "frame_size self"] l
    by simp
  moreover have "iterate_frames rotate_image vid self AllFrames = (Inr ys, self\<lparr>frame_size := z\<rparr>)"
    using p l by (simp add: iterate_frames_def make_filter_def)
  ultimately show ?thesis by blast
qed

lemma iterate_frames_keeps_count:
  "frame_count (snd (iterate_frames rotate_image vid self ff)) = frame_count self"
  by (simp add: iterate_frames_def split: prod.splits option.splits list.splits)

text \<open>
  Claim C10. On a reader with a source path whose frame count is not yet computed,
  \<open>get_frame_count\<close> returns the number of frames the video decodes to, whatever the
  reader's start, stop and step; it stores the number, and every later call returns the
  stored number and leaves the reader as it is, whatever the video then holds. Iterating
  frames with any filter does not touch the stored number.
\<close>

theorem frame_count_whole_video_memoized:
  assumes "frame_count self = None" and "source_path self \<noteq> []"
  shows "fst (get_frame_count rotate_image vid self) = Inr (int (length (video_frames vid)))
       \<and> fst (get_frame_count rotate_image vid (self\<lparr>start := a, stop := b, step := c\<rparr>))
           = fst (get_frame_count rotate_image vid self)
       \<and> frame_count (snd (get_frame_count rotate_image vid self))
           = Some (int (length (video_frames vid)))
       \<and> (\<forall>rotate_image' vid'.
             get_frame_count rotate_image' vid' (snd (get_frame_count rotate_image vid self))
               = (Inr (int (length (video_frames vid))), snd (get_frame_count rotate_image vid self)))
       \<and> (\<forall>rotate_image' vid' ff.
             frame_count (snd (iterate_frames rotate_image' vid' 
                (snd (get_frame_count rotate_image vid self)) ff))
               = Some (int (length (video_frames vid))))"
proof -
  obtain ys z where it: "iterate_frames rotate_image vid self AllFrames = (Inr ys, self\<lparr>frame_size := z\<rparr>)"
    and len: "length ys = length (video_frames vid)"
    using iterate_frames_all [OF assms(2)] by blast
  have g: "get_frame_count rotate_image vid self
      = (Inr (int (length (video_frames vid))),
         self\<lparr>frame_size := z, frame_count := Some (int (length (video_frames vid)))\<rparr>)"
    using assms(1) it len by (simp add: get_frame_count_def)
  let ?self2 = "self\<lparr>start := a, stop := b, step := c\<rparr>"
  have "source_path ?self2 \<noteq> []" "frame_count ?self2 = None" using assms by simp_all
  then obtain ys2 z2 where it2: "iterate_frames rotate_image vid ?self2 AllFrames
       = (Inr ys2, ?self2\<lparr>frame_size := z2\<rparr>)"
    and len2: "length ys2 = length (video_frames vid)"
    using iterate_frames_all [of ?self2] by blast
  have g2: "fst (get_frame_count rotate_image vid ?self2) = Inr (int (length (video_frames vid)))"
    using \<open>frame_count ?self2 = None\<close> it2 len2 by (simp add: get_frame_count_def)
  show ?thesis
    using g g2 by (simp add: get_frame_count_def iterate_frames_keeps_count)
qed

theorem frame_count_whole_video_memoized_witness:
  "frame_count (VideoReader [''video.mp4''] 2 1 (Some 1) DIM_2D False) = None
   \<and> source_path (VideoReader [''video.mp4''] 2 1 (Some 1) DIM_2D False) \<noteq> []
   \<and> fst (get_frame_count (\<lambda>f a. f)
        \<lparr>video_frames = [\<lparr>frame_width = 4, frame_height = 2, frame_pts = Some 0,
                           frame_time_base = None, frame_pixels = ()\<rparr>,
                         \<lparr>frame_width = 4, frame_height = 2, frame_pts = Some 1,
                           frame_time_base = None, frame_pixels = ()\<rparr>,
                         \<lparr>frame_width = 4, frame_height = 2, frame_pts = Some 2,
                           frame_time_base = None, frame_pixels = ()\<rparr>],
         rotate = None\<rparr>
        (VideoReader [''video.mp4''] 2 1 (Some 1) DIM_2D False)) = Inr 3"
proof -
  have h: "frame_count (VideoReader [''video.mp4''] 2 1 (Some 1) DIM_2D False) = None"
    "source_path (VideoReader [''video.mp4''] 2 1 (Some 1) DIM_2D False) \<noteq> []"
    by (simp_all add: VideoReader_def)
  from frame_count_whole_video_memoized [OF h, where rotate_image = "\<lambda>f a. f"
      and vid =
      "\<lparr>video_frames = [\<lparr>frame_width = 4, frame_height = 2, frame_pts = Some 0,
                           frame_time_base = None, frame_pixels = ()\<rparr>,
                         \<lparr>frame_width = 4, frame_height = 2, frame_pts = Some 1,
                           frame_time_base = None, frame_pixels = ()\<rparr>,
                         \<lparr>frame_width = 4, frame_height = 2, frame_pts = Some 2,
                           frame_time_base = None, frame_pixels = ()\<rparr>],
         rotate = None\<rparr>", THEN conjunct1] h
  show ?thesis by simp
qed

subsection \<open>Point-cloud conversion\<close>













end
